theory Spec2Isabelle
  imports Main "HOL-Library.Sublist"
begin

section \<open>JavaScript primitives used by the crawler\<close>

text \<open>
  Strings are lists of characters, a character being a code unit below 256.
  \<open>String.prototype.startsWith\<close> is the prefix test.
\<close>

definition startsWith :: "string \<Rightarrow> string \<Rightarrow> bool" where
  "startsWith s p = prefix p s"

text \<open>
  A JavaScript \<open>Set<string>\<close> keeps its members in insertion order and \<open>add\<close> of a
  member leaves it unchanged; \<open>Array.from\<close> reads the members in that order. It is
  modelled as the list of its members in insertion order.
\<close>

definition set_add :: "'a \<Rightarrow> 'a list \<Rightarrow> 'a list" where
  "set_add x xs = (if x \<in> set xs then xs else xs @ [x])"

text \<open>
  \<open>String.prototype.trim\<close> strips white space and line terminators. A character here is
  a code unit below 256, and among these they are tab, line feed, vertical tab, form feed,
  carriage return, space and the no-break space U+00A0.
\<close>

definition isSpace :: "char \<Rightarrow> bool" where
  "isSpace c =
     (c \<in> set [CHR 0x09, CHR 0x0A, CHR 0x0B, CHR 0x0C, CHR 0x0D, CHR 0x20, CHR 0xA0])"

definition trim :: "string \<Rightarrow> string" where
  "trim s = rev (dropWhile isSpace (rev (dropWhile isSpace s)))"

section \<open>The platform: URL parser, browser and file system\<close>

datatype error = TypeError | EvaluateError | LaunchError | NewPageError

text \<open>
  What the two in-page scripts read of a rendered document: \<open>textOf d sel\<close> is the
  \<open>textContent\<close> of the first element that \<open>querySelector sel\<close> finds once the
  header element has been removed (\<open>None\<close> when nothing matches), \<open>bodyText d\<close> is
  \<open>document.body.textContent\<close> (\<open>None\<close> when \<open>document.body\<close> is null), and
  \<open>anchorHrefs d\<close> lists, in document order, what \<open>getAttribute("href")\<close> returns
  for each anchor that is left when the links are read (\<open>None\<close> for null).
\<close>

record document =
  textOf :: "string \<Rightarrow> string option"
  bodyText :: "string option"
  anchorHrefs :: "string option list"

text \<open>
  The collaborators the class calls into. \<open>None\<close> and \<open>False\<close> stand for a thrown
  exception (a rejected promise):
  \<^item> \<open>launch\<close>, \<open>newPage\<close>: whether \<open>chromium.launch()\<close> and \<open>browser.newPage()\<close> resolve;
  \<^item> \<open>url_origin u\<close>: \<open>new URL(u).origin\<close>;
  \<^item> \<open>url_href h b\<close>: \<open>new URL(h, b).href\<close>;
  \<^item> \<open>goto u\<close>: \<open>page.goto(u)\<close> followed by \<open>page.waitForLoadState\<close>, giving the
    rendered document;
  \<^item> \<open>writeFile p c\<close>: whether \<open>fs.promises.writeFile(p, c)\<close> resolves.
  Within one run every URL is navigated to and saved at most once and the file content
  starts with the URL, so no call is repeated with the same arguments and a function of
  the arguments covers every behaviour of the collaborators.
\<close>

record platform =
  launch :: bool
  newPage :: bool
  url_origin :: "string \<Rightarrow> string option"
  url_href :: "string \<Rightarrow> string \<Rightarrow> string option"
  goto :: "string \<Rightarrow> document option"
  writeFile :: "string \<Rightarrow> string \<Rightarrow> bool"

section \<open>The crawler object\<close>

datatype browser_state = Running | Closed

text \<open>
  The observable actions of a run, in the order they happen: \<open>Mark u\<close> is the insertion
  of \<open>u\<close> into \<open>visitedUrls\<close>, \<open>Goto u\<close> the call of \<open>page.goto\<close>, \<open>Extract u\<close> and
  \<open>Discover u\<close> the evaluation of the two in-page scripts, \<open>SaveCall u\<close> the call of
  \<open>saveToFile\<close>, \<open>Wrote p c\<close> a file written and \<open>WriteFailed p\<close> a write that threw.
\<close>

datatype event =
  Mark string
  | Goto string
  | Extract string
  | SaveCall string
  | Wrote string string
  | WriteFailed string
  | Discover string

text \<open>
  The fields of \<open>PlaywrightCrawler\<close> (\<open>outputDir\<close> is never assigned after
  construction and is a constant below), with the log of actions added.
\<close>

record crawler =
  visitedUrls :: "string list"
  pageCount :: nat
  browser :: "browser_state option"
  trace :: "event list"

definition outputDir :: string where
  "outputDir = ''output''"

definition new_crawler :: crawler where
  "new_crawler = \<lparr>visitedUrls = [], pageCount = 0, browser = None, trace = []\<rparr>"

section \<open>urlToFileName and saveToFile\<close>

definition stripScheme :: "string \<Rightarrow> string" where
  "stripScheme url =
     (if prefix ''http://'' url then drop 7 url
      else if prefix ''https://'' url then drop 8 url
      else url)"

definition isAlnum :: "char \<Rightarrow> bool" where
  "isAlnum c =
     (let n = (of_char c :: nat)
      in (48 \<le> n \<and> n \<le> 57) \<or> (65 \<le> n \<and> n \<le> 90) \<or> (97 \<le> n \<and> n \<le> 122))"

fun collapse :: "string \<Rightarrow> string" where
  "collapse (a # b # cs) =
     (if a = CHR ''_'' \<and> b = CHR ''_'' then collapse (b # cs) else a # collapse (b # cs))"
| "collapse cs = cs"

definition toLower :: "char \<Rightarrow> char" where
  "toLower c =
     (let n = (of_char c :: nat)
      in if 65 \<le> n \<and> n \<le> 90 then char_of (n + 32) else c)"

definition urlToFileName :: "string \<Rightarrow> string" where
  "urlToFileName url =
     map toLower
       (collapse (map (\<lambda>c. if isAlnum c then c else CHR ''_'') (stripScheme url)))
     @ ''.txt''"

definition saveToFile :: "platform \<Rightarrow> string \<Rightarrow> string \<Rightarrow> crawler \<Rightarrow> crawler" where
  "saveToFile P url content s =
     (let fileName = urlToFileName url;
          filePath = outputDir @ ''/'' @ fileName;
          fileContent = ''URL: '' @ url @ [CHR 0x0A, CHR 0x0A] @ ''Content:'' @ [CHR 0x0A]
                        @ trim content;
          s1 = s\<lparr>trace := trace s @ [SaveCall url]\<rparr>
      in if writeFile P filePath fileContent
         then s1\<lparr>pageCount := pageCount s1 + 1,
                 trace := trace s1 @ [Wrote filePath fileContent]\<rparr>
         else s1\<lparr>trace := trace s1 @ [WriteFailed filePath]\<rparr>)"

section \<open>extractContent and discoverLinks\<close>

definition selectors :: "string list" where
  "selectors = [''main'', ''#__next > div'', ''#__next'', ''body'']"

fun firstText :: "(string \<Rightarrow> string option) \<Rightarrow> string list \<Rightarrow> string option" where
  "firstText q [] = None"
| "firstText q (sel # sels) =
     (case q sel of
        None \<Rightarrow> firstText q sels
      | Some t \<Rightarrow> if t \<noteq> [] then Some t else firstText q sels)"

definition extractContent :: "document \<Rightarrow> error + string" where
  "extractContent d =
     (case firstText (textOf d) selectors of
        Some t \<Rightarrow> Inr t
      | None \<Rightarrow> (case bodyText d of None \<Rightarrow> Inl EvaluateError | Some t \<Rightarrow> Inr t))"

text \<open>
  The body of the \<open>forEach\<close> callback for one anchor, in its two steps. A href is
  truthy when it is neither null nor empty. \<open>new URL(href, baseUrl)\<close> throws on a href
  it cannot parse, which ends the script; \<open>links\<close> is the set built so far.
\<close>

definition resolveHref :: "platform \<Rightarrow> string \<Rightarrow> string option \<Rightarrow> error + string option" where
  "resolveHref P baseUrl el =
     (case el of
        None \<Rightarrow> Inr None
      | Some h \<Rightarrow>
          if h \<noteq> [] \<and> \<not> startsWith h ''http'' \<and> \<not> startsWith h ''#''
          then (case url_href P h baseUrl of
                  None \<Rightarrow> Inl TypeError
                | Some r \<Rightarrow> Inr (Some r))
          else Inr (Some h))"

definition addLink :: "platform \<Rightarrow> string \<Rightarrow> string option \<Rightarrow> string list \<Rightarrow> error + string list" where
  "addLink P baseUrl el links =
     (case resolveHref P baseUrl el of
        Inl e \<Rightarrow> Inl e
      | Inr None \<Rightarrow> Inr links
      | Inr (Some href) \<Rightarrow>
          Inr (if href \<noteq> [] \<and> startsWith href baseUrl then set_add href links else links))"

fun forEachAnchor :: "platform \<Rightarrow> string \<Rightarrow> string option list \<Rightarrow> string list \<Rightarrow> error + string list" where
  "forEachAnchor P baseUrl [] links = Inr links"
| "forEachAnchor P baseUrl (el # els) links =
     (case addLink P baseUrl el links of
        Inl e \<Rightarrow> Inl e
      | Inr links' \<Rightarrow> forEachAnchor P baseUrl els links')"

definition discoverLinks :: "platform \<Rightarrow> document \<Rightarrow> string \<Rightarrow> error + string list" where
  "discoverLinks P d baseUrl = forEachAnchor P baseUrl (anchorHrefs d) []"

section \<open>crawlPage and crawl\<close>

text \<open>
  \<open>crawlPage\<close> with its \<open>for\<close> loop over the discovered links as \<open>crawlLinks\<close>. An
  exception inside the \<open>try\<close> block is caught by the \<open>catch\<close>, which only logs, so the
  state reached when it was thrown is the result. The budget \<open>maxPages\<close> is an integer,
  of either sign.
\<close>

function crawlPage :: "platform \<Rightarrow> string \<Rightarrow> string \<Rightarrow> int \<Rightarrow> crawler \<Rightarrow> crawler"
  and crawlLinks :: "platform \<Rightarrow> string list \<Rightarrow> string \<Rightarrow> int \<Rightarrow> crawler \<Rightarrow> crawler"
where
  "crawlPage P url baseUrl maxPages s =
     (if int (length (visitedUrls s)) \<ge> maxPages \<or> url \<in> set (visitedUrls s) then s
      else
        let s1 = s\<lparr>visitedUrls := set_add url (visitedUrls s),
                   trace := trace s @ [Mark url, Goto url]\<rparr>
        in case goto P url of
             None \<Rightarrow> s1
           | Some d \<Rightarrow>
               let s2 = s1\<lparr>trace := trace s1 @ [Extract url]\<rparr>
               in case extractContent d of
                    Inl e \<Rightarrow> s2
                  | Inr content \<Rightarrow>
                      let s3 = saveToFile P url content s2;
                          s4 = s3\<lparr>trace := trace s3 @ [Discover url]\<rparr>
                      in case discoverLinks P d baseUrl of
                           Inl e \<Rightarrow> s4
                         | Inr links \<Rightarrow> crawlLinks P links baseUrl maxPages s4)"
| "crawlLinks P [] baseUrl maxPages s = s"
| "crawlLinks P (link # rest) baseUrl maxPages s =
     (if int (length (visitedUrls s)) < maxPages
      then crawlLinks P rest baseUrl maxPages (crawlPage P link baseUrl maxPages s)
      else s)"
  by pat_completeness auto

lemma saveToFile_visitedUrls [simp]:
  "visitedUrls (saveToFile P url content s) = visitedUrls s"
  by (simp add: saveToFile_def Let_def)

lemma length_set_add: "length xs \<le> length (set_add x xs)"
  by (simp add: set_add_def)

text \<open>
  The recursion is nested: the loop goes on from the state the recursive call returns.
  Wherever the functions are defined the visited set does not shrink, so the rest of the
  loop starts with no more budget than the loop had.
\<close>

lemma crawl_dom_visited_le:
  "crawlPage_crawlLinks_dom (Inl (P, url, baseUrl, maxPages, s)) \<Longrightarrow>
     length (visitedUrls s) \<le> length (visitedUrls (crawlPage P url baseUrl maxPages s))"
  "crawlPage_crawlLinks_dom (Inr (P, links, baseUrl, maxPages, s)) \<Longrightarrow>
     length (visitedUrls s) \<le> length (visitedUrls (crawlLinks P links baseUrl maxPages s))"
proof (induction rule: crawlPage_crawlLinks.pinduct)
  case (1 P url baseUrl maxPages s)
  show ?case
    using "1.IH" "1.hyps" length_set_add [of "visitedUrls s" url]
    by (fastforce simp add: crawlPage.psimps Let_def split: option.splits sum.splits)
next
  case (2 P baseUrl maxPages s)
  then show ?case by (simp add: crawlLinks.psimps)
next
  case (3 P link rest baseUrl maxPages s)
  then show ?case by (auto simp add: crawlLinks.psimps)
qed

text \<open>
  Every call is in the domain of the recursion: the budget that is left,
  \<open>maxPages - visitedUrls.size\<close>, then the number of links still to go, decrease
  along the recursive calls.
\<close>

lemma crawl_all_dom: "crawlPage_crawlLinks_dom x"
proof -
  have "All crawlPage_crawlLinks_dom"
  proof (rule "crawlPage_crawlLinks.termination" [where R = "inv_image (less_than <*lex*> less_than)
      (\<lambda>x. case x of
          Inl (P, url, baseUrl, maxPages, s) \<Rightarrow>
            (nat (maxPages - int (length (visitedUrls s))), 0::nat)
        | Inr (P, links, baseUrl, maxPages, s) \<Rightarrow>
            (nat (maxPages - int (length (visitedUrls s))), Suc (length links)))"], goal_cases)
    case 1
    show ?case by auto
  next
    case (2 P url baseUrl maxPages s x x2 xa b xb xc ba)
    then show ?case by (auto simp add: set_add_def)
  next
    case (3 P link rest baseUrl maxPages s)
    then show ?case by simp
  next
    case (4 P link rest baseUrl maxPages s)
    then show ?case
      using crawl_dom_visited_le(1) [of P link baseUrl maxPages s] by auto
  qed
  then show ?thesis by blast
qed

termination crawlPage
  using crawl_all_dom by blast

declare crawlPage.simps [simp del]

text \<open>
  \<open>crawl\<close>: the result pairs the exception the returned promise rejects with, if any,
  with the state of the object. There is no \<open>try\<close> in \<open>crawl\<close>: a failing step
  ends it there. The default \<open>maxPages = 10\<close> of the signature is for the caller to
  pass.
\<close>

definition crawl :: "platform \<Rightarrow> string \<Rightarrow> int \<Rightarrow> crawler \<Rightarrow> error option \<times> crawler" where
  "crawl P startUrl maxPages s =
     (if \<not> launch P then (Some LaunchError, s)
      else
        let s1 = s\<lparr>browser := Some Running\<rparr>
        in if \<not> newPage P then (Some NewPageError, s1)
           else (case url_origin P startUrl of
                   None \<Rightarrow> (Some TypeError, s1)
                 | Some baseUrl \<Rightarrow>
                     let s2 = crawlPage P startUrl baseUrl maxPages s1
                     in (None, s2\<lparr>browser := Some Closed\<rparr>)))"

section \<open>One page at a time\<close>

text \<open>
  Two notions derived from \<open>crawlPage\<close>, for the proofs: \<open>visitOne\<close> is what an
  admitted call does for its own URL, up to the loop, and \<open>linksOf\<close> is the list the
  loop then runs over (empty when a step of the \<open>try\<close> block threw before the loop).
\<close>

definition visitOne :: "platform \<Rightarrow> string \<Rightarrow> crawler \<Rightarrow> crawler" where
  "visitOne P url s =
     (let s1 = s\<lparr>visitedUrls := set_add url (visitedUrls s),
                 trace := trace s @ [Mark url, Goto url]\<rparr>
      in case goto P url of
           None \<Rightarrow> s1
         | Some d \<Rightarrow>
             let s2 = s1\<lparr>trace := trace s1 @ [Extract url]\<rparr>
             in case extractContent d of
                  Inl e \<Rightarrow> s2
                | Inr content \<Rightarrow>
                    let s3 = saveToFile P url content s2
                    in s3\<lparr>trace := trace s3 @ [Discover url]\<rparr>)"

definition linksOf :: "platform \<Rightarrow> string \<Rightarrow> string \<Rightarrow> string list" where
  "linksOf P url baseUrl =
     (case goto P url of
        None \<Rightarrow> []
      | Some d \<Rightarrow>
          (case extractContent d of
             Inl e \<Rightarrow> []
           | Inr content \<Rightarrow>
               (case discoverLinks P d baseUrl of Inl e \<Rightarrow> [] | Inr links \<Rightarrow> links)))"

text \<open>The path and the content \<open>saveToFile\<close> writes for a URL and its extracted text.\<close>

definition filePathOf :: "string \<Rightarrow> string" where
  "filePathOf url = outputDir @ ''/'' @ urlToFileName url"

definition fileContentOf :: "string \<Rightarrow> string \<Rightarrow> string" where
  "fileContentOf url content =
     ''URL: '' @ url @ [CHR 0x0A, CHR 0x0A] @ ''Content:'' @ [CHR 0x0A] @ trim content"

text \<open>Readings of the log of actions.\<close>

fun marked :: "event list \<Rightarrow> string list" where
  "marked [] = []"
| "marked (Mark u # t) = u # marked t"
| "marked (e # t) = marked t"

fun navigated :: "event list \<Rightarrow> string list" where
  "navigated [] = []"
| "navigated (Goto u # t) = u # navigated t"
| "navigated (e # t) = navigated t"

fun saveCalls :: "event list \<Rightarrow> string list" where
  "saveCalls [] = []"
| "saveCalls (SaveCall u # t) = u # saveCalls t"
| "saveCalls (e # t) = saveCalls t"

fun wrote :: "event list \<Rightarrow> (string \<times> string) list" where
  "wrote [] = []"
| "wrote (Wrote p c # t) = (p, c) # wrote t"
| "wrote (e # t) = wrote t"

text \<open>
  \<open>io_after_mark M t\<close>: along the log \<open>t\<close>, every action on a URL (navigation,
  extraction, save, discovery) comes after the insertion of that URL into the visited set;
  \<open>M\<close> holds the URLs inserted before \<open>t\<close> starts.
\<close>

fun io_after_mark :: "string set \<Rightarrow> event list \<Rightarrow> bool" where
  "io_after_mark M [] = True"
| "io_after_mark M (Mark u # t) = io_after_mark (insert u M) t"
| "io_after_mark M (Goto u # t) = (u \<in> M \<and> io_after_mark M t)"
| "io_after_mark M (Extract u # t) = (u \<in> M \<and> io_after_mark M t)"
| "io_after_mark M (SaveCall u # t) = (u \<in> M \<and> io_after_mark M t)"
| "io_after_mark M (Discover u # t) = (u \<in> M \<and> io_after_mark M t)"
| "io_after_mark M (Wrote p c # t) = io_after_mark M t"
| "io_after_mark M (WriteFailed p # t) = io_after_mark M t"

text \<open>
  The log agrees with the fields of the object: the visited set holds the inserted URLs,
  once each, and the counter the number of files written. A new object is consistent.
\<close>

definition consistent :: "crawler \<Rightarrow> bool" where
  "consistent s =
     (distinct (visitedUrls s) \<and> marked (trace s) = visitedUrls s \<and>
      navigated (trace s) = visitedUrls s \<and>
      distinct (saveCalls (trace s)) \<and> set (saveCalls (trace s)) \<subseteq> set (visitedUrls s) \<and>
      io_after_mark {} (trace s) \<and>
      pageCount s = length (wrote (trace s)))"

section \<open>A test site\<close>

text \<open>
  A platform for the scenarios below. Its URL parser knows the two hosts of the
  scenarios: a URL on \<open>example.test\<close> or on \<open>example.test.evil.com\<close> has that
  host's origin, and a href made of one slash and then ASCII letters and digits resolves
  against \<open>https://example.test\<close> to the base followed by the href. It rejects every
  other string, as the real parser rejects the two the scenarios use: \<open>not a url\<close>
  (no scheme and no base) and \<open>//[\<close> (a host that opens an IPv6 literal and never
  closes it). \<open>site pages\<close> serves the documents of \<open>pages\<close>, fails to navigate
  anywhere else, and writes every file.
\<close>

definition test_origin :: "string \<Rightarrow> string option" where
  "test_origin u =
     (if prefix ''https://example.test/'' u then Some ''https://example.test''
      else if prefix ''https://example.test.evil.com/'' u
      then Some ''https://example.test.evil.com''
      else None)"

definition test_href :: "string \<Rightarrow> string \<Rightarrow> string option" where
  "test_href h b =
     (if b = ''https://example.test'' \<and> h \<noteq> [] \<and> hd h = CHR ''/'' \<and> list_all isAlnum (tl h)
      then Some (b @ h) else None)"

definition page :: "string option list \<Rightarrow> document" where
  "page hs =
     \<lparr>textOf = (\<lambda>sel. if sel = ''main'' then Some '' text '' else None),
      bodyText = Some '' text '', anchorHrefs = hs\<rparr>"

definition site :: "(string \<times> document) list \<Rightarrow> platform" where
  "site pages =
     \<lparr>launch = True, newPage = True, url_origin = test_origin, url_href = test_href,
      goto = map_of pages, writeFile = (\<lambda>p c. True)\<rparr>"

text \<open>
  The site of the budget scenario: \<open>/\<close> links to \<open>/a\<close> and \<open>/b\<close>, \<open>/a\<close> links
  to \<open>/\<close> and \<open>/c\<close>, and \<open>/b\<close> and \<open>/c\<close> have no links.
\<close>

definition scenario_site :: platform where
  "scenario_site =
     site [(''https://example.test/'', page [Some ''/a'', Some ''/b'']),
           (''https://example.test/a'', page [Some ''/'', Some ''/c'']),
           (''https://example.test/b'', page []),
           (''https://example.test/c'', page [])]"

text \<open>
  A site with a cycle, \<open>/a\<close> and \<open>/b\<close> linking to each other; a site where \<open>/x\<close>
  does not render and its sibling \<open>/y\<close> does; and the scenario site on a file system
  that refuses the file of \<open>/a\<close>.
\<close>

definition cycle_site :: platform where
  "cycle_site =
     site [(''https://example.test/a'', page [Some ''/b'']),
           (''https://example.test/b'', page [Some ''/a''])]"

definition flaky_site :: platform where
  "flaky_site =
     site [(''https://example.test/'', page [Some ''/x'', Some ''/y'']),
           (''https://example.test/y'', page [])]"

definition readonly_site :: platform where
  "readonly_site = scenario_site\<lparr>writeFile := (\<lambda>p c. p \<noteq> ''output/example_test_a.txt'')\<rparr>"


definition evil_site :: platform where
  "evil_site =
     site [(''https://example.test/'', page [Some ''https://example.test.evil.com/x'']),
           (''https://example.test.evil.com/x'', page [])]"

definition malformed_site :: platform where
  "malformed_site =
     site [(''https://example.test/'', page [Some ''/a'', Some ''//['', Some ''/b'']),
           (''https://example.test/a'', page []),
           (''https://example.test/b'', page [])]"

section \<open>Properties of the recursion\<close>

subsection \<open>Induction over the calls\<close>

lemma crawlPage_unfold:
  "crawlPage P url baseUrl maxPages s =
     (if maxPages \<le> int (length (visitedUrls s)) \<or> url \<in> set (visitedUrls s) then s
      else crawlLinks P (linksOf P url baseUrl) baseUrl maxPages (visitOne P url s))"
  by (subst crawlPage.simps)
     (simp add: visitOne_def linksOf_def Let_def split: option.splits sum.splits)

lemma crawl_induct [case_names page nil cons]:
  assumes page: "\<And>P url b N s.
      (\<not> (N \<le> int (length (visitedUrls s)) \<or> url \<in> set (visitedUrls s)) \<Longrightarrow>
         Q P (linksOf P url b) b N (visitOne P url s)) \<Longrightarrow> R P url b N s"
    and nil: "\<And>P b N s. Q P [] b N s"
    and cons: "\<And>P link rest b N s.
      (int (length (visitedUrls s)) < N \<Longrightarrow> R P link b N s) \<Longrightarrow>
      (int (length (visitedUrls s)) < N \<Longrightarrow> Q P rest b N (crawlPage P link b N s)) \<Longrightarrow>
      Q P (link # rest) b N s"
  shows "R P url b N s" and "Q P links b N s"
proof (induction P url b N s and P links b N s rule: crawlPage_crawlLinks.induct)
  case (1 P url baseUrl maxPages s)
  show ?case
  proof (rule page)
    assume go: "\<not> (maxPages \<le> int (length (visitedUrls s)) \<or> url \<in> set (visitedUrls s))"
    show "Q P (linksOf P url baseUrl) baseUrl maxPages (visitOne P url s)"
    proof (cases "goto P url")
      case None
      then show ?thesis by (simp add: linksOf_def nil)
    next
      case (Some d)
      note d = this
      show ?thesis
      proof (cases "extractContent d")
        case (Inl e)
        with d show ?thesis by (simp add: linksOf_def nil)
      next
        case (Inr content)
        note c = this
        show ?thesis
        proof (cases "discoverLinks P d baseUrl")
          case (Inl e)
          with d c show ?thesis by (simp add: linksOf_def nil)
        next
          case (Inr links)
          from "1.IH" [OF go refl d refl c refl refl Inr] d c Inr
          show ?thesis by (simp add: linksOf_def visitOne_def Let_def)
        qed
      qed
    qed
  qed
next
  case (2 P baseUrl maxPages s)
  show ?case by (rule nil)
next
  case (3 P link rest baseUrl maxPages s)
  show ?case by (rule cons) (use 3 in auto)
qed

lemma crawl_rel:
  assumes refl: "\<And>s. R s s"
    and trans: "\<And>s t u. R s t \<Longrightarrow> R t u \<Longrightarrow> R s u"
    and step: "\<And>url s. int (length (visitedUrls s)) < N \<Longrightarrow> url \<notin> set (visitedUrls s) \<Longrightarrow>
                 R s (visitOne P url s)"
  shows "R s (crawlPage P url b N s)" and "R s (crawlLinks P links b N s)"
proof -
  have "P' = P \<and> N' = N \<longrightarrow> R s (crawlPage P' url b N' s)"
    and "P' = P \<and> N' = N \<longrightarrow> R s (crawlLinks P' links b N' s)" for P' N'
  proof (induction P' url b N' s and P' links b N' s rule: crawl_induct)
    case (page P' url b N' s)
    show ?case
    proof (intro impI)
      assume eq: "P' = P \<and> N' = N"
      show "R s (crawlPage P' url b N' s)"
      proof (cases "N' \<le> int (length (visitedUrls s)) \<or> url \<in> set (visitedUrls s)")
        case True
        then show ?thesis by (simp add: crawlPage_unfold refl)
      next
        case False
        with eq have "R s (visitOne P' url s)" by (simp add: step)
        moreover from page [OF False] eq
        have "R (visitOne P' url s) (crawlLinks P' (linksOf P' url b) b N' (visitOne P' url s))"
          by simp
        ultimately show ?thesis using False by (simp add: crawlPage_unfold) (rule trans)
      qed
    qed
  next
    case (nil P' b N' s)
    show ?case by (simp add: refl)
  next
    case (cons P' link rest b N' s)
    show ?case
    proof (intro impI)
      assume eq: "P' = P \<and> N' = N"
      show "R s (crawlLinks P' (link # rest) b N' s)"
      proof (cases "int (length (visitedUrls s)) < N'")
        case True
        from cons(1) [OF True] cons(2) [OF True] eq True show ?thesis
          by (simp add: trans)
      next
        case False
        then show ?thesis by (simp add: refl)
      qed
    qed
  qed
  from this [of P N] show "R s (crawlPage P url b N s)" and "R s (crawlLinks P links b N s)"
    by simp_all
qed

subsection \<open>The log and the invariant\<close>

lemma marked_append [simp]: "marked (xs @ ys) = marked xs @ marked ys"
  by (induction xs rule: marked.induct) simp_all

lemma navigated_append [simp]: "navigated (xs @ ys) = navigated xs @ navigated ys"
  by (induction xs rule: navigated.induct) simp_all

lemma saveCalls_append [simp]: "saveCalls (xs @ ys) = saveCalls xs @ saveCalls ys"
  by (induction xs rule: saveCalls.induct) simp_all

lemma wrote_append [simp]: "wrote (xs @ ys) = wrote xs @ wrote ys"
  by (induction xs rule: wrote.induct) simp_all

lemma io_after_mark_append:
  "io_after_mark M (xs @ ys) = (io_after_mark M xs \<and> io_after_mark (M \<union> set (marked xs)) ys)"
  by (induction M xs rule: io_after_mark.induct) auto

lemma visitOne_visitedUrls [simp]:
  "visitedUrls (visitOne P url s) = set_add url (visitedUrls s)"
  by (simp add: visitOne_def Let_def split: option.splits sum.splits)

lemma visitOne_marked [simp]:
  "marked (trace (visitOne P url s)) = marked (trace s) @ [url]"
  by (simp add: visitOne_def saveToFile_def Let_def split: option.splits sum.splits)

lemma visitOne_navigated [simp]:
  "navigated (trace (visitOne P url s)) = navigated (trace s) @ [url]"
  by (simp add: visitOne_def saveToFile_def Let_def split: option.splits sum.splits)

lemma visitOne_trace_prefix: "prefix (trace s) (trace (visitOne P url s))"
  by (simp add: visitOne_def saveToFile_def Let_def split: option.splits sum.splits)

lemma visitOne_saveCalls:
  "saveCalls (trace (visitOne P url s)) = saveCalls (trace s) \<or>
   saveCalls (trace (visitOne P url s)) = saveCalls (trace s) @ [url]"
  by (simp add: visitOne_def saveToFile_def Let_def split: option.splits sum.splits)

lemma visitOne_pageCount:
  "int (pageCount (visitOne P url s)) - int (length (wrote (trace (visitOne P url s)))) =
   int (pageCount s) - int (length (wrote (trace s)))"
  by (simp add: visitOne_def saveToFile_def Let_def split: option.splits sum.splits)

lemma visitOne_io_after_mark:
  "io_after_mark {} (trace s) \<Longrightarrow> io_after_mark {} (trace (visitOne P url s))"
  by (simp add: visitOne_def saveToFile_def Let_def io_after_mark_append
      split: option.splits sum.splits)

lemma visitOne_browser [simp]: "browser (visitOne P url s) = browser s"
  by (simp add: visitOne_def saveToFile_def Let_def split: option.splits sum.splits)

lemma visitOne_consistent:
  assumes "url \<notin> set (visitedUrls s)" and "consistent s"
  shows "consistent (visitOne P url s)"
proof -
  from visitOne_saveCalls [of P url s] assms
  have "distinct (saveCalls (trace (visitOne P url s))) \<and>
        set (saveCalls (trace (visitOne P url s))) \<subseteq> insert url (set (visitedUrls s))"
    by (auto simp add: consistent_def)
  moreover from visitOne_pageCount [of P url s] assms
  have "pageCount (visitOne P url s) = length (wrote (trace (visitOne P url s)))"
    by (simp add: consistent_def)
  ultimately show ?thesis
    using assms visitOne_io_after_mark [of s P url]
    by (simp add: consistent_def set_add_def)
qed

lemma crawl_consistent:
  "consistent s \<Longrightarrow> consistent (crawlPage P url b N s)"
  "consistent s \<Longrightarrow> consistent (crawlLinks P links b N s)"
  using crawl_rel [where R = "\<lambda>s t. consistent s \<longrightarrow> consistent t" and P = P and N = N and s = s and b = b]
  by (simp_all add: visitOne_consistent)

lemma crawl_visited_prefix:
  "prefix (visitedUrls s) (visitedUrls (crawlPage P url b N s))"
  "prefix (visitedUrls s) (visitedUrls (crawlLinks P links b N s))"
  using crawl_rel [where R = "\<lambda>s t. prefix (visitedUrls s) (visitedUrls t)" and P = P and N = N and s = s and b = b]
  by (auto simp add: set_add_def)

lemma crawl_trace_prefix:
  "prefix (trace s) (trace (crawlPage P url b N s))"
  "prefix (trace s) (trace (crawlLinks P links b N s))"
  using crawl_rel [where R = "\<lambda>s t. prefix (trace s) (trace t)" and P = P and N = N and s = s and b = b]
  by (auto simp add: visitOne_trace_prefix)

lemma crawl_budget:
  "int (length (visitedUrls (crawlPage P url b N s))) \<le> max N (int (length (visitedUrls s)))"
  "int (length (visitedUrls (crawlLinks P links b N s))) \<le> max N (int (length (visitedUrls s)))"
  using crawl_rel [where R = "\<lambda>s t. int (length (visitedUrls t)) \<le> max N (int (length (visitedUrls s)))"
      and P = P and N = N and s = s and b = b]
  by (auto simp add: set_add_def)

lemma crawl_visits_count:
  "int (length (navigated (trace (crawlPage P url b N s)))) - int (length (visitedUrls (crawlPage P url b N s)))
     = int (length (navigated (trace s))) - int (length (visitedUrls s))"
  "int (length (navigated (trace (crawlLinks P links b N s)))) - int (length (visitedUrls (crawlLinks P links b N s)))
     = int (length (navigated (trace s))) - int (length (visitedUrls s))"
  using crawl_rel [where R = "\<lambda>s t. int (length (navigated (trace t))) - int (length (visitedUrls t))
     = int (length (navigated (trace s))) - int (length (visitedUrls s))"
      and P = P and N = N and s = s and b = b]
  by (auto simp add: set_add_def)

lemma crawl_browser:
  "browser (crawlPage P url b N s) = browser s"
  "browser (crawlLinks P links b N s) = browser s"
  using crawl_rel [where R = "\<lambda>s t. browser t = browser s" and P = P and N = N and s = s and b = b]
  by auto

lemma new_crawler_consistent: "consistent new_crawler"
  by (simp add: consistent_def new_crawler_def)

subsection \<open>Whole runs\<close>

lemma crawl_outcome:
  "(\<exists>e. crawl P seed N s = (Some e, s)) \<or>
   (\<exists>e. crawl P seed N s = (Some e, s\<lparr>browser := Some Running\<rparr>)) \<or>
   (\<exists>b. url_origin P seed = Some b \<and>
        crawl P seed N s =
          (None, (crawlPage P seed b N (s\<lparr>browser := Some Running\<rparr>))\<lparr>browser := Some Closed\<rparr>))"
  by (simp add: crawl_def Let_def split: option.splits)

lemma crawl_closes_browser:
  "launch P \<Longrightarrow> newPage P \<Longrightarrow> url_origin P seed = Some b \<Longrightarrow>
     fst (crawl P seed N s) = None \<and> browser (snd (crawl P seed N s)) = Some Closed"
  by (simp add: crawl_def Let_def)

lemma crawl_run_visited_prefix:
  "prefix (visitedUrls s) (visitedUrls (snd (crawl P seed N s)))"
  using crawl_outcome [of P seed N s]
    crawl_visited_prefix(1) [of "s\<lparr>browser := Some Running\<rparr>" P seed _ N]
  by auto

lemma crawl_run_budget:
  "int (length (visitedUrls (snd (crawl P seed N s)))) \<le> max N (int (length (visitedUrls s)))"
  using crawl_outcome [of P seed N s]
    crawl_budget(1) [of P seed _ N "s\<lparr>browser := Some Running\<rparr>"]
  by auto

lemma consistent_browser [simp]: "consistent (s\<lparr>browser := x\<rparr>) = consistent s"
  by (simp add: consistent_def)

lemma crawl_run_consistent:
  "consistent s \<Longrightarrow> consistent (snd (crawl P seed N s))"
  using crawl_outcome [of P seed N s]
    crawl_consistent(1) [of "s\<lparr>browser := Some Running\<rparr>" P seed _ N]
  by auto

subsection \<open>Single steps\<close>

lemma saveToFile_eq:
  "saveToFile P url content s =
     (if writeFile P (filePathOf url) (fileContentOf url content)
      then s\<lparr>pageCount := pageCount s + 1,
             trace := trace s @ [SaveCall url, Wrote (filePathOf url) (fileContentOf url content)]\<rparr>
      else s\<lparr>trace := trace s @ [SaveCall url, WriteFailed (filePathOf url)]\<rparr>)"
  by (simp add: saveToFile_def filePathOf_def fileContentOf_def Let_def)

lemma visitOne_render_failure:
  "goto P url = None \<Longrightarrow>
     visitOne P url s =
       s\<lparr>visitedUrls := set_add url (visitedUrls s), trace := trace s @ [Mark url, Goto url]\<rparr>
     \<and> linksOf P url b = []"
  by (simp add: visitOne_def linksOf_def)

lemma visitOne_saved:
  "goto P url = Some d \<Longrightarrow> extractContent d = Inr c \<Longrightarrow>
     SaveCall url \<in> set (trace (visitOne P url s)) \<and>
     (writeFile P (filePathOf url) (fileContentOf url c) \<longrightarrow>
        Wrote (filePathOf url) (fileContentOf url c) \<in> set (trace (visitOne P url s)))"
  by (simp add: visitOne_def saveToFile_eq Let_def)

lemma crawlPage_admitted_includes:
  assumes "int (length (visitedUrls s)) < N" and "url \<notin> set (visitedUrls s)"
  shows "prefix (visitedUrls s @ [url]) (visitedUrls (crawlPage P url b N s))"
    and "prefix (trace (visitOne P url s)) (trace (crawlPage P url b N s))"
  using assms crawl_visited_prefix(2) [of "visitOne P url s" P "linksOf P url b" b N]
    crawl_trace_prefix(2) [of "visitOne P url s" P "linksOf P url b" b N]
  by (simp_all add: crawlPage_unfold set_add_def)

lemma visitOne_write_failure:
  assumes "goto P url = Some d" and "extractContent d = Inr c"
    and "\<not> writeFile P (filePathOf url) (fileContentOf url c)"
  shows "visitOne P url s =
     s\<lparr>visitedUrls := set_add url (visitedUrls s),
       trace := trace s @ [Mark url, Goto url, Extract url, SaveCall url,
                           WriteFailed (filePathOf url), Discover url]\<rparr>"
  using assms by (simp add: visitOne_def saveToFile_eq Let_def)

subsection \<open>Absolute hrefs\<close>







subsection \<open>When discoverLinks throws\<close>

lemma resolveHref_Inl:
  "resolveHref P b el = Inl e \<longleftrightarrow>
     e = TypeError \<and>
     (\<exists>h. el = Some h \<and> h \<noteq> [] \<and> \<not> startsWith h ''http'' \<and> \<not> startsWith h ''#'' \<and>
          url_href P h b = None)"
  by (auto simp add: resolveHref_def split: option.splits)

lemma addLink_Inl: "addLink P b el links = Inl e \<longleftrightarrow> resolveHref P b el = Inl e"
  by (simp add: addLink_def split: sum.splits option.splits)

lemma forEachAnchor_Inl:
  "forEachAnchor P b els links = Inl e \<longleftrightarrow> (\<exists>el\<in>set els. resolveHref P b el = Inl e)"
proof (induction els arbitrary: links)
  case Nil
  show ?case by simp
next
  case (Cons el els)
  show ?case
  proof (cases "addLink P b el links")
    case (Inl e')
    then have "resolveHref P b el = Inl e'" by (simp add: addLink_Inl)
    moreover from this have "e' = TypeError" by (simp add: resolveHref_Inl)
    moreover have "e = TypeError" if "\<exists>x\<in>set els. resolveHref P b x = Inl e"
      using that by (auto simp add: resolveHref_Inl)
    ultimately show ?thesis using Inl by auto
  next
    case (Inr ls)
    then have "resolveHref P b el \<noteq> Inl e"
      using addLink_Inl [of P b el links e] by simp
    with Inr Cons.IH [of ls] show ?thesis by simp
  qed
qed

lemma discoverLinks_Inl:
  "discoverLinks P d b = Inl e \<longleftrightarrow>
     e = TypeError \<and>
     (\<exists>h. Some h \<in> set (anchorHrefs d) \<and> h \<noteq> [] \<and> \<not> startsWith h ''http'' \<and>
          \<not> startsWith h ''#'' \<and> url_href P h b = None)"
  by (auto simp add: discoverLinks_def forEachAnchor_Inl resolveHref_Inl)

subsection \<open>A page that fails against a page without anchors\<close>

lemma resolveHref_goto_update [simp]:
  "resolveHref (P\<lparr>goto := g\<rparr>) b el = resolveHref P b el"
  by (simp add: resolveHref_def split: option.splits)

lemma addLink_goto_update [simp]:
  "addLink (P\<lparr>goto := g\<rparr>) b el links = addLink P b el links"
  by (simp add: addLink_def)

lemma forEachAnchor_goto_update [simp]:
  "forEachAnchor (P\<lparr>goto := g\<rparr>) b els links = forEachAnchor P b els links"
  by (induction els arbitrary: links) (simp_all split: sum.splits)

lemma discoverLinks_goto_update [simp]:
  "discoverLinks (P\<lparr>goto := g\<rparr>) d b = discoverLinks P d b"
  by (simp add: discoverLinks_def)

lemma saveToFile_goto_update [simp]:
  "saveToFile (P\<lparr>goto := g\<rparr>) url c s = saveToFile P url c s"
  by (simp add: saveToFile_def)

lemma visitOne_saveCalls_eq:
  "saveCalls (trace (visitOne P url s)) =
     saveCalls (trace s) @
       (case goto P url of
          None \<Rightarrow> []
        | Some d \<Rightarrow> (case extractContent d of Inl e \<Rightarrow> [] | Inr c \<Rightarrow> [url]))"
  by (simp add: visitOne_def saveToFile_eq Let_def split: option.splits sum.splits)

lemma render_failure_simulation:
  assumes fail: "goto P X = None" and blank: "anchorHrefs d0 = []"
  shows "visitedUrls s = visitedUrls s' \<and>
         filter (\<lambda>u. u \<noteq> X) (saveCalls (trace s)) = filter (\<lambda>u. u \<noteq> X) (saveCalls (trace s')) \<Longrightarrow>
         visitedUrls (crawlPage P url b N s) =
           visitedUrls (crawlPage (P\<lparr>goto := (goto P)(X \<mapsto> d0)\<rparr>) url b N s') \<and>
         filter (\<lambda>u. u \<noteq> X) (saveCalls (trace (crawlPage P url b N s))) =
           filter (\<lambda>u. u \<noteq> X)
             (saveCalls (trace (crawlPage (P\<lparr>goto := (goto P)(X \<mapsto> d0)\<rparr>) url b N s')))"
proof -
  define P' where "P' = P\<lparr>goto := (goto P)(X \<mapsto> d0)\<rparr>"
  define same where "same = (\<lambda>(s::crawler) (s'::crawler). visitedUrls s = visitedUrls s' \<and>
         filter (\<lambda>u. u \<noteq> X) (saveCalls (trace s)) = filter (\<lambda>u. u \<noteq> X) (saveCalls (trace s')))"
  have links: "linksOf P' url b = linksOf P url b" for url b
  proof (cases "url = X")
    case True
    with fail blank show ?thesis
      by (simp add: linksOf_def P'_def discoverLinks_def split: sum.splits)
  next
    case False
    then show ?thesis by (simp add: linksOf_def P'_def split: option.splits sum.splits)
  qed
  have one: "same (visitOne P url s) (visitOne P' url s')" if "same s s'" for url s s'
  proof (cases "url = X")
    case True
    with that fail show ?thesis
      by (simp add: same_def visitOne_saveCalls_eq P'_def split: sum.splits)
  next
    case False
    with that show ?thesis
      by (simp add: same_def visitOne_saveCalls_eq P'_def)
  qed
  have "P0 = P \<longrightarrow> (\<forall>s'. same s s' \<longrightarrow> same (crawlPage P0 url b N s) (crawlPage P' url b N s'))"
    and "P0 = P \<longrightarrow> (\<forall>s'. same s s' \<longrightarrow> same (crawlLinks P0 ls b N s) (crawlLinks P' ls b N s'))"
    for P0 ls
  proof (induction P0 url b N s and P0 ls b N s rule: crawl_induct)
    case (page P0 url b N s)
    show ?case
    proof (intro impI allI)
      fix s' assume eq: "P0 = P" and st: "same s s'"
      from st have v: "visitedUrls s' = visitedUrls s" by (simp add: same_def)
      show "same (crawlPage P0 url b N s) (crawlPage P' url b N s')"
      proof (cases "N \<le> int (length (visitedUrls s)) \<or> url \<in> set (visitedUrls s)")
        case True
        with v st show ?thesis by (simp add: crawlPage_unfold)
      next
        case False
        from page [OF False] eq one [OF st, of url]
        have "same (crawlLinks P (linksOf P url b) b N (visitOne P url s))
                (crawlLinks P' (linksOf P url b) b N (visitOne P' url s'))"
          by simp
        with False v eq links [of url b] show ?thesis by (simp add: crawlPage_unfold)
      qed
    qed
  next
    case (nil P0 b N s)
    show ?case by simp
  next
    case (cons P0 link rest b N s)
    show ?case
    proof (intro impI allI)
      fix s' assume eq: "P0 = P" and st: "same s s'"
      from st have v: "visitedUrls s' = visitedUrls s" by (simp add: same_def)
      show "same (crawlLinks P0 (link # rest) b N s) (crawlLinks P' (link # rest) b N s')"
      proof (cases "int (length (visitedUrls s)) < N")
        case True
        from cons(1) [OF True] eq st
        have "same (crawlPage P link b N s) (crawlPage P' link b N s')" by simp
        with cons(2) [OF True] eq True v show ?thesis by simp
      next
        case False
        with v st show ?thesis by simp
      qed
    qed
  qed
  from this(1) [of P]
  show "visitedUrls s = visitedUrls s' \<and>
         filter (\<lambda>u. u \<noteq> X) (saveCalls (trace s)) = filter (\<lambda>u. u \<noteq> X) (saveCalls (trace s')) \<Longrightarrow>
         visitedUrls (crawlPage P url b N s) =
           visitedUrls (crawlPage (P\<lparr>goto := (goto P)(X \<mapsto> d0)\<rparr>) url b N s') \<and>
         filter (\<lambda>u. u \<noteq> X) (saveCalls (trace (crawlPage P url b N s))) =
           filter (\<lambda>u. u \<noteq> X)
             (saveCalls (trace (crawlPage (P\<lparr>goto := (goto P)(X \<mapsto> d0)\<rparr>) url b N s')))"
    by (simp add: same_def P'_def)
qed

subsection \<open>The caller and the siblings of a page that fails\<close>

lemma crawlPage_render_failure:
  assumes "goto P X = None" and "X \<notin> set (visitedUrls s)"
    and "int (length (visitedUrls s)) < N"
  shows "crawlPage P X b N s =
           s\<lparr>visitedUrls := visitedUrls s @ [X], trace := trace s @ [Mark X, Goto X]\<rparr>"
  using assms visitOne_render_failure [OF assms(1), of s b]
  by (simp add: crawlPage_unfold set_add_def)

lemma crawlLinks_past_render_failure:
  assumes fail: "goto P X = None" and new: "X \<notin> set (visitedUrls s)"
    and room: "int (length (visitedUrls s)) + 1 < N"
    and y: "Y \<noteq> X" "Y \<notin> set (visitedUrls s)" "goto P Y = Some d" "extractContent d = Inr c"
  shows "X \<in> set (visitedUrls (crawlLinks P (X # Y # rest) b N s)) \<and>
         Y \<in> set (visitedUrls (crawlLinks P (X # Y # rest) b N s)) \<and>
         SaveCall Y \<in> set (trace (crawlLinks P (X # Y # rest) b N s)) \<and>
         (writeFile P (filePathOf Y) (fileContentOf Y c) \<longrightarrow>
            Wrote (filePathOf Y) (fileContentOf Y c)
              \<in> set (trace (crawlLinks P (X # Y # rest) b N s)))"
proof -
  let ?s1 = "s\<lparr>visitedUrls := visitedUrls s @ [X], trace := trace s @ [Mark X, Goto X]\<rparr>"
  let ?s2 = "crawlPage P Y b N ?s1"
  let ?s3 = "crawlLinks P rest b N ?s2"
  from room have room0: "int (length (visitedUrls s)) < N" by simp
  from y room have adm: "int (length (visitedUrls ?s1)) < N" "Y \<notin> set (visitedUrls ?s1)"
    by simp_all
  have run: "crawlLinks P (X # Y # rest) b N s = ?s3"
    using crawlPage_render_failure [OF fail new room0, of b] room0 adm(1) by simp
  from crawlPage_admitted_includes [OF adm, of P b]
  have p2: "prefix (visitedUrls ?s1 @ [Y]) (visitedUrls ?s2)"
    and t2: "prefix (trace (visitOne P Y ?s1)) (trace ?s2)" .
  from crawl_visited_prefix(2) [of ?s2 P rest b N] crawl_trace_prefix(2) [of ?s2 P rest b N]
  have p3: "prefix (visitedUrls ?s2) (visitedUrls ?s3)" and t3: "prefix (trace ?s2) (trace ?s3)" .
  from set_mono_prefix [OF p2] set_mono_prefix [OF p3]
  have "X \<in> set (visitedUrls ?s3)" "Y \<in> set (visitedUrls ?s3)" by auto
  moreover from y visitOne_saved [of P Y d c ?s1] set_mono_prefix [OF t2] set_mono_prefix [OF t3]
  have "SaveCall Y \<in> set (trace ?s3) \<and>
        (writeFile P (filePathOf Y) (fileContentOf Y c) \<longrightarrow>
           Wrote (filePathOf Y) (fileContentOf Y c) \<in> set (trace ?s3))"
    by blast
  ultimately show ?thesis unfolding run by simp
qed

lemma crawlPage_caller_of_failed_page:
  assumes fail: "goto P X = None"
    and caller: "goto P caller = Some dc" "extractContent dc = Inr cc"
      "discoverLinks P dc b = Inr (X # Y # rest)"
    and new: "caller \<notin> set (visitedUrls s)" "X \<notin> set (visitedUrls s)" "Y \<notin> set (visitedUrls s)"
    and ne: "caller \<noteq> X" "caller \<noteq> Y" "Y \<noteq> X"
    and room: "int (length (visitedUrls s)) + 2 < N"
    and y: "goto P Y = Some d" "extractContent d = Inr c"
  shows "set [caller, X, Y] \<subseteq> set (visitedUrls (crawlPage P caller b N s)) \<and>
         SaveCall caller \<in> set (trace (crawlPage P caller b N s)) \<and>
         SaveCall Y \<in> set (trace (crawlPage P caller b N s)) \<and>
         (writeFile P (filePathOf Y) (fileContentOf Y c) \<longrightarrow>
            Wrote (filePathOf Y) (fileContentOf Y c) \<in> set (trace (crawlPage P caller b N s)))"
proof -
  let ?s1 = "visitOne P caller s"
  from caller have links: "linksOf P caller b = X # Y # rest"
    by (simp add: linksOf_def)
  from new room have run: "crawlPage P caller b N s = crawlLinks P (X # Y # rest) b N ?s1"
    by (simp add: crawlPage_unfold links)
  from new have v1: "visitedUrls ?s1 = visitedUrls s @ [caller]"
    by (simp add: set_add_def)
  from v1 new ne room
  have a: "X \<notin> set (visitedUrls ?s1)" "int (length (visitedUrls ?s1)) + 1 < N"
    "Y \<notin> set (visitedUrls ?s1)"
    by simp_all
  note sib = crawlLinks_past_render_failure [OF fail a(1) a(2) ne(3) a(3) y, of rest b]
  from crawl_visited_prefix(2) [of ?s1 P "X # Y # rest" b N] v1
  have "caller \<in> set (visitedUrls (crawlLinks P (X # Y # rest) b N ?s1))"
    using set_mono_prefix by fastforce
  moreover from visitOne_saved [OF caller(1,2), where s = s]
    set_mono_prefix [OF crawl_trace_prefix(2) [of ?s1 P "X # Y # rest" b N]]
  have "SaveCall caller \<in> set (trace (crawlLinks P (X # Y # rest) b N ?s1))"
    by blast
  ultimately show ?thesis using sib unfolding run by simp
qed

lemma failed_page_only_navigated:
  assumes fail: "goto P X = None"
  shows "(\<forall>e\<in>{Extract X, SaveCall X, Discover X}. e \<in> set (trace (crawlPage P url b N s)) \<longrightarrow>
            e \<in> set (trace s))"
proof -
  have step: "\<forall>e\<in>{Extract X, SaveCall X, Discover X}. e \<in> set (trace (visitOne P u t)) \<longrightarrow>
            e \<in> set (trace t)" for u t
    using fail by (cases "u = X") (auto simp add: visitOne_def saveToFile_eq Let_def split: option.splits sum.splits)
  show ?thesis
    using crawl_rel(1) [where R = "\<lambda>s t. \<forall>e\<in>{Extract X, SaveCall X, Discover X}.
        e \<in> set (trace t) \<longrightarrow> e \<in> set (trace s)" and P = P and N = N and s = s and b = b and url = url]
      step
    by blast
qed

section \<open>The budget scenario\<close>

text \<open>
  C2 (as the code runs it). Seed \<open>https://example.test/\<close>, budget 3, on the site where
  \<open>/\<close> links to \<open>/a\<close> and \<open>/b\<close> and \<open>/a\<close> links to \<open>/\<close> and \<open>/c\<close>: the
  expansion is depth-first, so \<open>/c\<close> is reached from \<open>/a\<close> before the loop of \<open>/\<close>
  comes to \<open>/b\<close>, and by then the budget is used up. The visited URLs are \<open>/\<close>,
  \<open>/a\<close>, \<open>/c\<close>, and three files are written, one for each of them.
\<close>

theorem scenario_visits_root_a_c:
  "(let (r, s) = crawl scenario_site ''https://example.test/'' 3 new_crawler
    in r = None \<and>
       visitedUrls s =
         [''https://example.test/'', ''https://example.test/a'', ''https://example.test/c''] \<and>
       saveCalls (trace s) = visitedUrls s \<and>
       map fst (wrote (trace s)) =
         [''output/example_test_.txt'', ''output/example_test_a.txt'',
          ''output/example_test_c.txt''] \<and>
       pageCount s = 3)"
  by code_simp

text \<open>
  C2 as stated fails: the visited set of that run is not \<open>{/, /a, /b}\<close>.
\<close>

theorem scenario_visited_set_counterexample:
  "set (visitedUrls (snd (crawl scenario_site ''https://example.test/'' 3 new_crawler))) \<noteq>
     {''https://example.test/'', ''https://example.test/a'', ''https://example.test/b''}"
  by code_simp

section \<open>Budget\<close>

text \<open>
  C3. With a budget \<open>N \<ge> 0\<close>, a run on a new crawler leaves at most \<open>N\<close> URLs in
  the visited set. From any state, a run and each call of \<open>crawlPage\<close> only extend the
  visited set, never beyond \<open>N\<close> (or beyond its size at the start, if that was larger),
  and a call made when the size has reached \<open>N\<close> adds nothing.
\<close>

theorem visited_within_budget:
  assumes "0 \<le> N"
  shows "int (length (visitedUrls (snd (crawl P seed N new_crawler)))) \<le> N \<and>
         prefix (visitedUrls s) (visitedUrls (snd (crawl P seed N s))) \<and>
         int (length (visitedUrls (snd (crawl P seed N s)))) \<le> max N (int (length (visitedUrls s))) \<and>
         prefix (visitedUrls s) (visitedUrls (crawlPage P url b N s)) \<and>
         int (length (visitedUrls (crawlPage P url b N s))) \<le> max N (int (length (visitedUrls s))) \<and>
         (N \<le> int (length (visitedUrls s)) \<longrightarrow> crawlPage P url b N s = s)"
proof -
  have "int (length (visitedUrls (snd (crawl P seed N new_crawler)))) \<le> N"
    using crawl_run_budget [of P seed N new_crawler] assms by (simp add: new_crawler_def)
  moreover have "N \<le> int (length (visitedUrls s)) \<longrightarrow> crawlPage P url b N s = s"
    by (simp add: crawlPage_unfold)
  ultimately show ?thesis
    by (simp add: crawl_run_visited_prefix crawl_run_budget crawl_visited_prefix crawl_budget)
qed

text \<open>The scenario with budget 3, and a call with budget 0.\<close>

theorem visited_within_budget_witness:
  "(0::int) \<le> 3 \<and>
   int (length (visitedUrls (snd (crawl scenario_site ''https://example.test/'' 3 new_crawler)))) \<le> 3 \<and>
   (0::int) \<le> int (length (visitedUrls new_crawler)) \<and>
   crawlPage scenario_site ''https://example.test/'' ''https://example.test'' 0 new_crawler =
     new_crawler"
  using visited_within_budget [of 3 scenario_site "''https://example.test/''"]
    visited_within_budget [where N = 0 and s = new_crawler and P = scenario_site
      and url = "''https://example.test/''" and b = "''https://example.test''"]
  by simp

section \<open>Uniqueness\<close>

text \<open>
  C4. A run that starts from a consistent crawler (a new one is) processes no URL twice:
  at its end the visited set has no duplicate, the navigations are exactly the visited
  URLs in order, \<open>saveToFile\<close> was called at most once for each URL, and every action on
  a URL comes after its insertion into the visited set. A call of \<open>crawlPage\<close> for a
  URL that is already visited changes nothing.
\<close>

theorem each_url_processed_once:
  assumes "consistent s"
  shows "distinct (visitedUrls (snd (crawl P seed N s))) \<and>
         navigated (trace (snd (crawl P seed N s))) = visitedUrls (snd (crawl P seed N s)) \<and>
         distinct (saveCalls (trace (snd (crawl P seed N s)))) \<and>
         io_after_mark {} (trace (snd (crawl P seed N s))) \<and>
         (url \<in> set (visitedUrls s) \<longrightarrow> crawlPage P url b N s = s)"
proof -
  from crawl_run_consistent [OF assms, of P seed N]
  have "consistent (snd (crawl P seed N s))" .
  moreover have "url \<in> set (visitedUrls s) \<longrightarrow> crawlPage P url b N s = s"
    by (simp add: crawlPage_unfold)
  ultimately show ?thesis by (simp add: consistent_def)
qed

text \<open>
  The run from \<open>/a\<close> on the site with the cycle, budget 5, and a second call for
  \<open>/a\<close> after it.
\<close>

theorem each_url_processed_once_witness:
  "consistent new_crawler \<and>
   distinct (visitedUrls (snd (crawl cycle_site ''https://example.test/a'' 5 new_crawler))) \<and>
   navigated (trace (snd (crawl cycle_site ''https://example.test/a'' 5 new_crawler))) =
     [''https://example.test/a'', ''https://example.test/b''] \<and>
   distinct (saveCalls (trace (snd (crawl cycle_site ''https://example.test/a'' 5 new_crawler)))) \<and>
   io_after_mark {} (trace (snd (crawl cycle_site ''https://example.test/a'' 5 new_crawler))) \<and>
   consistent (snd (crawl cycle_site ''https://example.test/a'' 5 new_crawler)) \<and>
   ''https://example.test/a'' \<in>
     set (visitedUrls (snd (crawl cycle_site ''https://example.test/a'' 5 new_crawler))) \<and>
   crawlPage cycle_site ''https://example.test/a'' ''https://example.test'' 5
     (snd (crawl cycle_site ''https://example.test/a'' 5 new_crawler)) =
     snd (crawl cycle_site ''https://example.test/a'' 5 new_crawler)"
proof -
  have v: "visitedUrls (snd (crawl cycle_site ''https://example.test/a'' 5 new_crawler)) =
          [''https://example.test/a'', ''https://example.test/b'']"
    by code_simp
  have c: "consistent (snd (crawl cycle_site ''https://example.test/a'' 5 new_crawler))"
    by (rule crawl_run_consistent [OF new_crawler_consistent])
  from v have m: "''https://example.test/a'' \<in>
      set (visitedUrls (snd (crawl cycle_site ''https://example.test/a'' 5 new_crawler)))"
    by simp
  from each_url_processed_once [OF c, where url = "''https://example.test/a''"
      and P = cycle_site and b = "''https://example.test''" and N = 5] m
  have again: "crawlPage cycle_site ''https://example.test/a'' ''https://example.test'' 5
     (snd (crawl cycle_site ''https://example.test/a'' 5 new_crawler)) =
     snd (crawl cycle_site ''https://example.test/a'' 5 new_crawler)"
    by blast
  from each_url_processed_once [OF new_crawler_consistent, of cycle_site "''https://example.test/a''" 5]
    v c m again
  show ?thesis by (simp add: new_crawler_consistent)
qed

section \<open>Termination\<close>

text \<open>
  C5. Every call of \<open>crawlPage\<close>, and of its loop, is in the domain of the recursion:
  it returns after finitely many recursive calls, on any link graph. The calls that are
  not skipped (the navigations) number at most the budget that is left, so at most \<open>N\<close>
  on a new crawler; a call for a visited URL returns the state as it is, and a call that
  is admitted returns a strictly larger visited set.
\<close>

theorem crawlPage_terminates_within_budget:
  "crawlPage_crawlLinks_dom (Inl (P, url, b, N, s)) \<and>
   crawlPage_crawlLinks_dom (Inr (P, links, b, N, s)) \<and>
   int (length (navigated (trace (crawlPage P url b N s)))) - int (length (navigated (trace s)))
     \<le> max 0 (N - int (length (visitedUrls s))) \<and>
   (0 \<le> N \<longrightarrow> int (length (navigated (trace (crawlPage P url b N new_crawler)))) \<le> N) \<and>
   (url \<in> set (visitedUrls s) \<longrightarrow> crawlPage P url b N s = s) \<and>
   (int (length (visitedUrls s)) < N \<and> url \<notin> set (visitedUrls s) \<longrightarrow>
      length (visitedUrls s) < length (visitedUrls (crawlPage P url b N s)))"
proof -
  have count: "int (length (navigated (trace (crawlPage P url b N t)))) - int (length (navigated (trace t)))
     \<le> max 0 (N - int (length (visitedUrls t)))" for t
    using crawl_visits_count(1) [of P url b N t] crawl_budget(1) [of P url b N t] by simp
  have "int (length (navigated (trace (crawlPage P url b N new_crawler)))) \<le> N" if "0 \<le> N"
    using count [of new_crawler] that by (simp add: new_crawler_def)
  moreover have "url \<in> set (visitedUrls s) \<longrightarrow> crawlPage P url b N s = s"
    by (simp add: crawlPage_unfold)
  moreover have "length (visitedUrls s) < length (visitedUrls (crawlPage P url b N s))"
    if "int (length (visitedUrls s)) < N \<and> url \<notin> set (visitedUrls s)"
  proof -
    from that have "crawlPage P url b N s = crawlLinks P (linksOf P url b) b N (visitOne P url s)"
      by (simp add: crawlPage_unfold)
    with crawl_visited_prefix(2) [of "visitOne P url s" P "linksOf P url b" b N]
    have "prefix (visitedUrls s @ [url]) (visitedUrls (crawlPage P url b N s))"
      using that by (simp add: set_add_def)
    from prefix_length_le [OF this] show ?thesis by simp
  qed
  ultimately show ?thesis using count [of s] by (simp add: crawl_all_dom)
qed

text \<open>On the cycle \<open>/a\<close>, \<open>/b\<close>, \<open>/a\<close> with budget 5 the call returns with two visits.\<close>

theorem crawlPage_terminates_within_budget_witness:
  "crawlPage_crawlLinks_dom
     (Inl (cycle_site, ''https://example.test/a'', ''https://example.test'', 5, new_crawler)) \<and>
   int (length (navigated (trace
     (crawlPage cycle_site ''https://example.test/a'' ''https://example.test'' 5 new_crawler)))) \<le> 5 \<and>
   visitedUrls (crawlPage cycle_site ''https://example.test/a'' ''https://example.test'' 5 new_crawler)
     = [''https://example.test/a'', ''https://example.test/b''] \<and>
   int (length (visitedUrls new_crawler)) < 5 \<and>
   ''https://example.test/a'' \<notin> set (visitedUrls new_crawler) \<and>
   length (visitedUrls new_crawler) < length (visitedUrls
     (crawlPage cycle_site ''https://example.test/a'' ''https://example.test'' 5 new_crawler))"
proof -
  have "visitedUrls (crawlPage cycle_site ''https://example.test/a'' ''https://example.test'' 5 new_crawler)
     = [''https://example.test/a'', ''https://example.test/b'']"
    by code_simp
  with crawlPage_terminates_within_budget
    [of cycle_site "''https://example.test/a''" "''https://example.test''" 5 new_crawler]
  show ?thesis by (simp add: new_crawler_def)
qed

section \<open>A page that does not render\<close>

text \<open>
  C6. When \<open>page.goto\<close> throws for an admitted URL \<open>X\<close>, the call of \<open>crawlPage\<close>
  for \<open>X\<close> returns normally: \<open>X\<close> is in the visited set, the navigation is the only
  action on it (no extraction, no save, no discovery), and nothing else has changed. The
  loop of the caller goes on with the next links from that state, and a next link \<open>Y\<close>
  that is new, within the budget and renders is visited and saved. So the call of
  \<open>crawlPage\<close> for a page that renders and links to \<open>X\<close> and then \<open>Y\<close>, and the run
  \<open>crawl\<close> from such a seed, visit the page, \<open>X\<close> and \<open>Y\<close> and save the page and
  \<open>Y\<close>. No call ever extracts, saves or discovers \<open>X\<close>, and any call visits exactly
  the URLs, and saves exactly the URLs other than \<open>X\<close>, that it would if \<open>X\<close> rendered
  as a page without anchors.
\<close>

theorem render_failure_is_isolated:
  assumes fail: "goto P X = None"
    and new: "X \<notin> set (visitedUrls s)"
    and room: "int (length (visitedUrls s)) < N"
  shows "crawlPage P X b N s =
           s\<lparr>visitedUrls := visitedUrls s @ [X], trace := trace s @ [Mark X, Goto X]\<rparr> \<and>
         crawlLinks P (X # rest) b N s =
           crawlLinks P rest b N
             (s\<lparr>visitedUrls := visitedUrls s @ [X], trace := trace s @ [Mark X, Goto X]\<rparr>) \<and>
         (Y \<noteq> X \<and> Y \<notin> set (visitedUrls s) \<and> int (length (visitedUrls s)) + 1 < N \<and>
          goto P Y = Some d \<and> extractContent d = Inr c \<longrightarrow>
            Y \<in> set (visitedUrls (crawlLinks P (X # Y # rest) b N s)) \<and>
            SaveCall Y \<in> set (trace (crawlLinks P (X # Y # rest) b N s)) \<and>
            (writeFile P (filePathOf Y) (fileContentOf Y c) \<longrightarrow>
               Wrote (filePathOf Y) (fileContentOf Y c)
                 \<in> set (trace (crawlLinks P (X # Y # rest) b N s)))) \<and>
         (anchorHrefs d0 = [] \<longrightarrow>
            visitedUrls (crawlPage P url b N t) =
              visitedUrls (crawlPage (P\<lparr>goto := (goto P)(X \<mapsto> d0)\<rparr>) url b N t) \<and>
            filter (\<lambda>u. u \<noteq> X) (saveCalls (trace (crawlPage P url b N t))) =
              filter (\<lambda>u. u \<noteq> X)
                (saveCalls (trace (crawlPage (P\<lparr>goto := (goto P)(X \<mapsto> d0)\<rparr>) url b N t)))) \<and>
         (goto P caller = Some dc \<and> extractContent dc = Inr cc \<and>
          discoverLinks P dc b = Inr (X # Y # rest) \<and>
          caller \<notin> set (visitedUrls s) \<and> Y \<notin> set (visitedUrls s) \<and>
          caller \<noteq> X \<and> caller \<noteq> Y \<and> Y \<noteq> X \<and>
          int (length (visitedUrls s)) + 2 < N \<and>
          goto P Y = Some d \<and> extractContent d = Inr c \<longrightarrow>
            caller \<in> set (visitedUrls (crawlPage P caller b N s)) \<and>
            X \<in> set (visitedUrls (crawlPage P caller b N s)) \<and>
            Y \<in> set (visitedUrls (crawlPage P caller b N s)) \<and>
            SaveCall caller \<in> set (trace (crawlPage P caller b N s)) \<and>
            SaveCall Y \<in> set (trace (crawlPage P caller b N s)) \<and>
            (writeFile P (filePathOf Y) (fileContentOf Y c) \<longrightarrow>
               Wrote (filePathOf Y) (fileContentOf Y c)
                 \<in> set (trace (crawlPage P caller b N s)))) \<and>
         (launch P \<and> newPage P \<and> url_origin P caller = Some b \<and>
          goto P caller = Some dc \<and> extractContent dc = Inr cc \<and>
          discoverLinks P dc b = Inr (X # Y # rest) \<and>
          caller \<notin> set (visitedUrls s) \<and> Y \<notin> set (visitedUrls s) \<and>
          caller \<noteq> X \<and> caller \<noteq> Y \<and> Y \<noteq> X \<and>
          int (length (visitedUrls s)) + 2 < N \<and>
          goto P Y = Some d \<and> extractContent d = Inr c \<longrightarrow>
            fst (crawl P caller N s) = None \<and>
            caller \<in> set (visitedUrls (snd (crawl P caller N s))) \<and>
            X \<in> set (visitedUrls (snd (crawl P caller N s))) \<and>
            Y \<in> set (visitedUrls (snd (crawl P caller N s))) \<and>
            SaveCall caller \<in> set (trace (snd (crawl P caller N s))) \<and>
            SaveCall Y \<in> set (trace (snd (crawl P caller N s)))) \<and>
         (Extract X \<notin> set (trace t) \<and> SaveCall X \<notin> set (trace t) \<and>
          Discover X \<notin> set (trace t) \<longrightarrow>
            Extract X \<notin> set (trace (crawlPage P url b N t)) \<and>
            SaveCall X \<notin> set (trace (crawlPage P url b N t)) \<and>
            Discover X \<notin> set (trace (crawlPage P url b N t)))"
proof -
  let ?s1 = "s\<lparr>visitedUrls := visitedUrls s @ [X], trace := trace s @ [Mark X, Goto X]\<rparr>"
  have page: "crawlPage P X b N s = ?s1"
    by (rule crawlPage_render_failure [OF fail new room])
  have loop: "crawlLinks P (X # rest) b N s = crawlLinks P rest b N ?s1"
    using room page by simp
  have sibling:
    "Y \<in> set (visitedUrls (crawlLinks P (X # Y # rest) b N s)) \<and>
     SaveCall Y \<in> set (trace (crawlLinks P (X # Y # rest) b N s)) \<and>
     (writeFile P (filePathOf Y) (fileContentOf Y c) \<longrightarrow>
        Wrote (filePathOf Y) (fileContentOf Y c)
          \<in> set (trace (crawlLinks P (X # Y # rest) b N s)))"
    if h: "Y \<noteq> X \<and> Y \<notin> set (visitedUrls s) \<and> int (length (visitedUrls s)) + 1 < N \<and>
          goto P Y = Some d \<and> extractContent d = Inr c"
    using crawlLinks_past_render_failure [OF fail new, of N Y d c rest b] h by blast
  have elsewhere:
    "visitedUrls (crawlPage P url b N t) =
       visitedUrls (crawlPage (P\<lparr>goto := (goto P)(X \<mapsto> d0)\<rparr>) url b N t) \<and>
     filter (\<lambda>u. u \<noteq> X) (saveCalls (trace (crawlPage P url b N t))) =
       filter (\<lambda>u. u \<noteq> X)
         (saveCalls (trace (crawlPage (P\<lparr>goto := (goto P)(X \<mapsto> d0)\<rparr>) url b N t)))"
    if "anchorHrefs d0 = []"
    using render_failure_simulation [OF fail that, of t t url b N] by simp
  have from_caller:
    "caller \<in> set (visitedUrls (crawlPage P caller b N u)) \<and>
     X \<in> set (visitedUrls (crawlPage P caller b N u)) \<and>
     Y \<in> set (visitedUrls (crawlPage P caller b N u)) \<and>
     SaveCall caller \<in> set (trace (crawlPage P caller b N u)) \<and>
     SaveCall Y \<in> set (trace (crawlPage P caller b N u)) \<and>
     (writeFile P (filePathOf Y) (fileContentOf Y c) \<longrightarrow>
        Wrote (filePathOf Y) (fileContentOf Y c) \<in> set (trace (crawlPage P caller b N u)))"
    if h: "goto P caller = Some dc \<and> extractContent dc = Inr cc \<and>
          discoverLinks P dc b = Inr (X # Y # rest) \<and>
          caller \<notin> set (visitedUrls s) \<and> Y \<notin> set (visitedUrls s) \<and>
          caller \<noteq> X \<and> caller \<noteq> Y \<and> Y \<noteq> X \<and>
          int (length (visitedUrls s)) + 2 < N \<and>
          goto P Y = Some d \<and> extractContent d = Inr c"
      and u: "visitedUrls u = visitedUrls s" for u
  proof -
    from h u new have a: "goto P caller = Some dc" "extractContent dc = Inr cc"
      "discoverLinks P dc b = Inr (X # Y # rest)"
      "caller \<notin> set (visitedUrls u)" "X \<notin> set (visitedUrls u)" "Y \<notin> set (visitedUrls u)"
      "caller \<noteq> X" "caller \<noteq> Y" "Y \<noteq> X"
      "int (length (visitedUrls u)) + 2 < N"
      "goto P Y = Some d" "extractContent d = Inr c"
      by simp_all
    from crawlPage_caller_of_failed_page [OF fail a] show ?thesis by simp
  qed
  have from_seed:
    "fst (crawl P caller N s) = None \<and>
     caller \<in> set (visitedUrls (snd (crawl P caller N s))) \<and>
     X \<in> set (visitedUrls (snd (crawl P caller N s))) \<and>
     Y \<in> set (visitedUrls (snd (crawl P caller N s))) \<and>
     SaveCall caller \<in> set (trace (snd (crawl P caller N s))) \<and>
     SaveCall Y \<in> set (trace (snd (crawl P caller N s)))"
    if h: "launch P \<and> newPage P \<and> url_origin P caller = Some b \<and>
          goto P caller = Some dc \<and> extractContent dc = Inr cc \<and>
          discoverLinks P dc b = Inr (X # Y # rest) \<and>
          caller \<notin> set (visitedUrls s) \<and> Y \<notin> set (visitedUrls s) \<and>
          caller \<noteq> X \<and> caller \<noteq> Y \<and> Y \<noteq> X \<and>
          int (length (visitedUrls s)) + 2 < N \<and>
          goto P Y = Some d \<and> extractContent d = Inr c"
  proof -
    from h have run: "crawl P caller N s =
        (None, (crawlPage P caller b N (s\<lparr>browser := Some Running\<rparr>))\<lparr>browser := Some Closed\<rparr>)"
      by (simp add: crawl_def Let_def)
    from h from_caller [of "s\<lparr>browser := Some Running\<rparr>"] show ?thesis
      unfolding run by simp
  qed
  have never:
    "Extract X \<notin> set (trace (crawlPage P url b N t)) \<and>
     SaveCall X \<notin> set (trace (crawlPage P url b N t)) \<and>
     Discover X \<notin> set (trace (crawlPage P url b N t))"
    if "Extract X \<notin> set (trace t) \<and> SaveCall X \<notin> set (trace t) \<and> Discover X \<notin> set (trace t)"
    using failed_page_only_navigated [OF fail, of url b N t] that by blast
  from page loop sibling elsewhere from_caller [of s] from_seed never show ?thesis by blast
qed

text \<open>
  On the site where \<open>/x\<close> does not render and the seed links to \<open>/x\<close> and \<open>/y\<close>: the
  run with budget 3 visits the seed, \<open>/x\<close> and \<open>/y\<close> and saves the seed and \<open>/y\<close>, which
  is what it visits if \<open>/x\<close> is an empty page.
\<close>

theorem render_failure_is_isolated_witness:
  "goto flaky_site ''https://example.test/x'' = None \<and>
   ''https://example.test/x'' \<notin> set (visitedUrls new_crawler) \<and>
   int (length (visitedUrls new_crawler)) < 3 \<and>
   ''https://example.test/y'' \<in> set (visitedUrls
      (crawlLinks flaky_site [''https://example.test/x'', ''https://example.test/y'']
         ''https://example.test'' 3 new_crawler)) \<and>
   SaveCall ''https://example.test/y'' \<in> set (trace
      (crawlLinks flaky_site [''https://example.test/x'', ''https://example.test/y'']
         ''https://example.test'' 3 new_crawler)) \<and>
   anchorHrefs (page []) = [] \<and>
   visitedUrls (crawlPage flaky_site ''https://example.test/'' ''https://example.test'' 3 new_crawler) =
     visitedUrls (crawlPage
       (flaky_site\<lparr>goto := (goto flaky_site)(''https://example.test/x'' \<mapsto> page [])\<rparr>)
       ''https://example.test/'' ''https://example.test'' 3 new_crawler) \<and>
   discoverLinks flaky_site (page [Some ''/x'', Some ''/y'']) ''https://example.test'' =
     Inr [''https://example.test/x'', ''https://example.test/y''] \<and>
   ''https://example.test/y'' \<in> set (visitedUrls
      (crawlPage flaky_site ''https://example.test/'' ''https://example.test'' 3 new_crawler)) \<and>
   SaveCall ''https://example.test/y'' \<in> set (trace
      (crawlPage flaky_site ''https://example.test/'' ''https://example.test'' 3 new_crawler)) \<and>
   SaveCall ''https://example.test/y'' \<in> set (trace
      (snd (crawl flaky_site ''https://example.test/'' 3 new_crawler))) \<and>
   SaveCall ''https://example.test/x'' \<notin> set (trace
      (crawlPage flaky_site ''https://example.test/'' ''https://example.test'' 3 new_crawler)) \<and>
   visitedUrls (snd (crawl flaky_site ''https://example.test/'' 3 new_crawler)) =
     [''https://example.test/'', ''https://example.test/x'', ''https://example.test/y''] \<and>
   saveCalls (trace (snd (crawl flaky_site ''https://example.test/'' 3 new_crawler))) =
     [''https://example.test/'', ''https://example.test/y'']"
proof -
  have f: "goto flaky_site ''https://example.test/x'' = None"
    by (simp add: flaky_site_def site_def)
  have n: "''https://example.test/x'' \<notin> set (visitedUrls new_crawler)"
    and r: "int (length (visitedUrls new_crawler)) < 3"
    by (simp_all add: new_crawler_def)
  have y: "goto flaky_site ''https://example.test/y'' = Some (page [])"
    by (simp add: flaky_site_def site_def)
  have e: "extractContent (page hs) = Inr '' text ''" for hs
    by (simp add: extractContent_def page_def selectors_def)
  have a: "anchorHrefs (page []) = []"
    by (simp add: page_def)
  have g: "goto flaky_site ''https://example.test/'' = Some (page [Some ''/x'', Some ''/y''])"
    by (simp add: flaky_site_def site_def)
  have l: "discoverLinks flaky_site (page [Some ''/x'', Some ''/y'']) ''https://example.test'' =
     Inr [''https://example.test/x'', ''https://example.test/y'']"
    by code_simp
  have o: "launch flaky_site \<and> newPage flaky_site \<and>
      url_origin flaky_site ''https://example.test/'' = Some ''https://example.test''"
    by code_simp
  have h: "''https://example.test/y'' \<noteq> ''https://example.test/x'' \<and>
           ''https://example.test/y'' \<notin> set (visitedUrls new_crawler) \<and>
           int (length (visitedUrls new_crawler)) + 1 < 3 \<and>
           goto flaky_site ''https://example.test/y'' = Some (page []) \<and>
           extractContent (page []) = Inr '' text ''"
    using y e by (simp add: new_crawler_def)
  have k: "''https://example.test/'' \<notin> set (visitedUrls new_crawler) \<and>
           ''https://example.test/'' \<noteq> ''https://example.test/x'' \<and>
           ''https://example.test/'' \<noteq> ''https://example.test/y'' \<and>
           int (length (visitedUrls new_crawler)) + 2 < 3"
    by (simp add: new_crawler_def)
  have z: "Extract ''https://example.test/x'' \<notin> set (trace new_crawler) \<and>
           SaveCall ''https://example.test/x'' \<notin> set (trace new_crawler) \<and>
           Discover ''https://example.test/x'' \<notin> set (trace new_crawler)"
    by (simp add: new_crawler_def)
  have run: "visitedUrls (snd (crawl flaky_site ''https://example.test/'' 3 new_crawler)) =
     [''https://example.test/'', ''https://example.test/x'', ''https://example.test/y''] \<and>
   saveCalls (trace (snd (crawl flaky_site ''https://example.test/'' 3 new_crawler))) =
     [''https://example.test/'', ''https://example.test/y'']"
    by code_simp
  from render_failure_is_isolated [OF f n r, where b = "''https://example.test''" and rest = "[]"
      and Y = "''https://example.test/y''" and d = "page []" and c = "'' text ''"
      and ?d0.0 = "page []" and url = "''https://example.test/''" and t = new_crawler
      and caller = "''https://example.test/''" and dc = "page [Some ''/x'', Some ''/y'']"
      and cc = "'' text ''"]
    h a g l o k z e [of "[Some ''/x'', Some ''/y'']"]
  have "''https://example.test/y'' \<in> set (visitedUrls
          (crawlLinks flaky_site [''https://example.test/x'', ''https://example.test/y'']
             ''https://example.test'' 3 new_crawler)) \<and>
        SaveCall ''https://example.test/y'' \<in> set (trace
          (crawlLinks flaky_site [''https://example.test/x'', ''https://example.test/y'']
             ''https://example.test'' 3 new_crawler)) \<and>
        visitedUrls (crawlPage flaky_site ''https://example.test/'' ''https://example.test'' 3 new_crawler) =
          visitedUrls (crawlPage
            (flaky_site\<lparr>goto := (goto flaky_site)(''https://example.test/x'' \<mapsto> page [])\<rparr>)
            ''https://example.test/'' ''https://example.test'' 3 new_crawler) \<and>
        ''https://example.test/y'' \<in> set (visitedUrls
          (crawlPage flaky_site ''https://example.test/'' ''https://example.test'' 3 new_crawler)) \<and>
        SaveCall ''https://example.test/y'' \<in> set (trace
          (crawlPage flaky_site ''https://example.test/'' ''https://example.test'' 3 new_crawler)) \<and>
        SaveCall ''https://example.test/y'' \<in> set (trace
          (snd (crawl flaky_site ''https://example.test/'' 3 new_crawler))) \<and>
        SaveCall ''https://example.test/x'' \<notin> set (trace
          (crawlPage flaky_site ''https://example.test/'' ''https://example.test'' 3 new_crawler))"
    by blast
  with f n r a l run show ?thesis by blast
qed

section \<open>A file that cannot be written\<close>

text \<open>
  C7. When the write throws, \<open>saveToFile\<close> returns normally with the failed write as
  its only effect: the counter and the visited set are as before. The call of
  \<open>crawlPage\<close> for that URL goes on to its links with the URL visited. Over a run from
  a consistent crawler the visited set only grows, \<open>saveToFile\<close> is called at most once
  for each URL (no retry), and the counter at the end is the number of files written.
\<close>

theorem save_failure_is_contained:
  assumes "consistent s"
  shows "(\<not> writeFile P (filePathOf url) (fileContentOf url c) \<longrightarrow>
            saveToFile P url c s =
              s\<lparr>trace := trace s @ [SaveCall url, WriteFailed (filePathOf url)]\<rparr>) \<and>
         (\<not> writeFile P (filePathOf url) (fileContentOf url c) \<and>
          goto P url = Some d \<and> extractContent d = Inr c \<and>
          int (length (visitedUrls s)) < N \<and> url \<notin> set (visitedUrls s) \<longrightarrow>
            crawlPage P url b N s =
              crawlLinks P (linksOf P url b) b N
                (s\<lparr>visitedUrls := visitedUrls s @ [url],
                   trace := trace s @ [Mark url, Goto url, Extract url, SaveCall url,
                                       WriteFailed (filePathOf url), Discover url]\<rparr>)) \<and>
         prefix (visitedUrls s) (visitedUrls (snd (crawl P seed N s))) \<and>
         distinct (saveCalls (trace (snd (crawl P seed N s)))) \<and>
         pageCount (snd (crawl P seed N s)) = length (wrote (trace (snd (crawl P seed N s))))"
proof -
  have "saveToFile P url c s = s\<lparr>trace := trace s @ [SaveCall url, WriteFailed (filePathOf url)]\<rparr>"
    if "\<not> writeFile P (filePathOf url) (fileContentOf url c)"
    using that by (simp add: saveToFile_eq)
  moreover have "crawlPage P url b N s =
      crawlLinks P (linksOf P url b) b N
        (s\<lparr>visitedUrls := visitedUrls s @ [url],
           trace := trace s @ [Mark url, Goto url, Extract url, SaveCall url,
                               WriteFailed (filePathOf url), Discover url]\<rparr>)"
    if "\<not> writeFile P (filePathOf url) (fileContentOf url c) \<and>
        goto P url = Some d \<and> extractContent d = Inr c \<and>
        int (length (visitedUrls s)) < N \<and> url \<notin> set (visitedUrls s)"
    using that visitOne_write_failure [of P url d c s]
    by (simp add: crawlPage_unfold set_add_def)
  moreover from crawl_run_consistent [OF assms, of P seed N]
  have "distinct (saveCalls (trace (snd (crawl P seed N s)))) \<and>
        pageCount (snd (crawl P seed N s)) = length (wrote (trace (snd (crawl P seed N s))))"
    by (simp add: consistent_def)
  ultimately show ?thesis
    using crawl_run_visited_prefix [of s P seed N] by blast
qed

text \<open>
  The scenario on the file system that refuses the file of \<open>/a\<close>: three URLs are
  visited and saved once each, and the count is 2.
\<close>

theorem save_failure_is_contained_witness:
  "consistent new_crawler \<and>
   pageCount (snd (crawl readonly_site ''https://example.test/'' 3 new_crawler)) =
     length (wrote (trace (snd (crawl readonly_site ''https://example.test/'' 3 new_crawler)))) \<and>
   pageCount (snd (crawl readonly_site ''https://example.test/'' 3 new_crawler)) = 2 \<and>
   visitedUrls (snd (crawl readonly_site ''https://example.test/'' 3 new_crawler)) =
     [''https://example.test/'', ''https://example.test/a'', ''https://example.test/c''] \<and>
   saveCalls (trace (snd (crawl readonly_site ''https://example.test/'' 3 new_crawler))) =
     [''https://example.test/'', ''https://example.test/a'', ''https://example.test/c''] \<and>
   \<not> writeFile readonly_site (filePathOf ''https://example.test/a'')
       (fileContentOf ''https://example.test/a'' '' text '') \<and>
   saveToFile readonly_site ''https://example.test/a'' '' text '' new_crawler =
     new_crawler\<lparr>trace := trace new_crawler @
       [SaveCall ''https://example.test/a'', WriteFailed (filePathOf ''https://example.test/a'')]\<rparr>"
proof -
  have run: "pageCount (snd (crawl readonly_site ''https://example.test/'' 3 new_crawler)) = 2 \<and>
   visitedUrls (snd (crawl readonly_site ''https://example.test/'' 3 new_crawler)) =
     [''https://example.test/'', ''https://example.test/a'', ''https://example.test/c''] \<and>
   saveCalls (trace (snd (crawl readonly_site ''https://example.test/'' 3 new_crawler))) =
     [''https://example.test/'', ''https://example.test/a'', ''https://example.test/c'']"
    by code_simp
  have refused: "\<not> writeFile readonly_site (filePathOf ''https://example.test/a'')
       (fileContentOf ''https://example.test/a'' '' text '')"
    by code_simp
  from save_failure_is_contained [OF new_crawler_consistent,
      where P = readonly_site and seed = "''https://example.test/''" and N = 3
        and url = "''https://example.test/a''" and c = "'' text ''"]
    run refused
  show ?thesis using new_crawler_consistent by blast
qed

section \<open>URLs are compared as strings\<close>



section \<open>Containment in the seed's origin\<close>

text \<open>
  C1 (what the code does at the input that breaks it). The seed
  \<open>https://example.test/\<close> has the origin \<open>https://example.test\<close>, and its page has
  one anchor, to \<open>https://example.test.evil.com/x\<close>, a URL of another origin. The href
  starts with \<open>http\<close> and with the string of the seed's origin, so \<open>discoverLinks\<close>
  returns it, and the run visits it and writes a file for it.
\<close>

theorem other_host_with_origin_prefix_is_saved:
  "url_origin evil_site ''https://example.test/'' = Some ''https://example.test'' \<and>
   url_origin evil_site ''https://example.test.evil.com/x'' = Some ''https://example.test.evil.com'' \<and>
   discoverLinks evil_site (page [Some ''https://example.test.evil.com/x'']) ''https://example.test''
     = Inr [''https://example.test.evil.com/x''] \<and>
   (let (r, s) = crawl evil_site ''https://example.test/'' 2 new_crawler
    in r = None \<and>
       visitedUrls s = [''https://example.test/'', ''https://example.test.evil.com/x''] \<and>
       saveCalls (trace s) = [''https://example.test/'', ''https://example.test.evil.com/x''] \<and>
       map fst (wrote (trace s)) =
         [''output/example_test_.txt'', ''output/example_test_evil_com_x.txt''])"
  by code_simp


section \<open>Closing the browser\<close>

text \<open>
  C8 (what the code does at the inputs that break it). With a seed that does not parse,
  and with a browser that fails to open a page, \<open>crawl\<close> ends with the exception
  after the launch and before \<open>browser.close()\<close>: the browser is left running.
\<close>

theorem browser_left_running_on_early_failure:
  "crawl (site []) ''not a url'' 10 new_crawler =
     (Some TypeError, new_crawler\<lparr>browser := Some Running\<rparr>) \<and>
   crawl ((site [])\<lparr>newPage := False\<rparr>) ''https://example.test/'' 10 new_crawler =
     (Some NewPageError, new_crawler\<lparr>browser := Some Running\<rparr>)"
  by code_simp


section \<open>Hrefs that do not parse\<close>

text \<open>
  C9 (what the code does at the input that breaks it). On the page with the anchors
  \<open>/a\<close>, \<open>//[\<close>, \<open>/b\<close> the href \<open>//[\<close> does not parse, \<open>new URL\<close> throws inside the
  \<open>forEach\<close> and \<open>discoverLinks\<close> throws as a whole: \<open>/a\<close> and \<open>/b\<close>, which the same
  page without the malformed anchor yields, are lost, and the run from that page visits
  the seed alone, where without the malformed anchor it visits \<open>/a\<close> and \<open>/b\<close> too.
\<close>

theorem malformed_href_aborts_discovery:
  "url_href malformed_site ''//['' ''https://example.test'' = None \<and>
   discoverLinks malformed_site (page [Some ''/a'', Some ''//['', Some ''/b''])
     ''https://example.test'' = Inl TypeError \<and>
   discoverLinks malformed_site (page [Some ''/a'', Some ''/b''])
     ''https://example.test'' = Inr [''https://example.test/a'', ''https://example.test/b''] \<and>
   visitedUrls (snd (crawl malformed_site ''https://example.test/'' 3 new_crawler)) =
     [''https://example.test/''] \<and>
   saveCalls (trace (snd (crawl malformed_site ''https://example.test/'' 3 new_crawler))) =
     [''https://example.test/''] \<and>
   visitedUrls (snd (crawl
     (site [(''https://example.test/'', page [Some ''/a'', Some ''/b'']),
            (''https://example.test/a'', page []),
            (''https://example.test/b'', page [])])
     ''https://example.test/'' 3 new_crawler)) =
     [''https://example.test/'', ''https://example.test/a'', ''https://example.test/b'']"
  by code_simp

end
